theory Spec2Isabelle
  imports Main "HOL-Library.Word"
begin

section \<open>The callback bridge of \<^verbatim>\<open>js_callback_maker.cc\<close>\<close>

text \<open>
  The file embeds \<^verbatim>\<open>src/v8_py_frontend/js_callback_maker.cc\<close>: the caller, the
  process-wide caller registry, the scoped holder that registers and unregisters one caller,
  the factory that mints script functions, and the static entry point that V8 runs when such
  a function is called. The registry singleton, the calls made into the host and the
  exception pending in the engine are the state; each operation takes the state and returns
  the new one. The registry mutex makes
  every registry operation atomic, so each is one function on the registry.
\<close>

type_synonym u64 = "64 word"

subsection \<open>Values of the script engine\<close>

text \<open>
  A script value. An array is the list of its slots: a slot is \<open>None\<close> when reading it
  raises a script exception (an accessor that throws), and holds the element otherwise. A big-integer has an unbounded mathematical value. A native function made
  by \<^verbatim>\<open>Function::New(context, &OnCalledStatic, data)\<close> is its attached data: the entry
  point is always \<^verbatim>\<open>OnCalledStatic\<close> in this file.
\<close>

datatype js_value =
    JSUndefined
  | JSNumber int
  | JSString string
  | JSBigInt int
  | JSArray "js_value option list"
  | JSFunction js_value

text \<open>
  \<^verbatim>\<open>BigInt::NewFromUnsigned(isolate, v)\<close> is the big-integer whose value is \<open>v\<close> read
  unsigned. \<^verbatim>\<open>BigInt::Uint64Value(&lossless)\<close> returns the value wrapped to 64 bits and sets
  \<^verbatim>\<open>lossless\<close> to whether nothing was lost: false for a negative value and for one of
  more than 64 bits.
\<close>

definition BigInt_NewFromUnsigned :: "u64 \<Rightarrow> js_value" where
  "BigInt_NewFromUnsigned v = JSBigInt (uint v)"

definition BigInt_Uint64Value :: "int \<Rightarrow> u64 \<times> bool" where
  "BigInt_Uint64Value n = (word_of_int n, 0 \<le> n \<and> n < 2 ^ 64)"

text \<open>
  \<^verbatim>\<open>Array::New(isolate, elements, n)\<close> builds the array of the given elements. Slot
  \<open>i\<close> of an array is what the list holds there; beyond the length it is
  \<^verbatim>\<open>undefined\<close>, as in the script language.
\<close>

definition Array_New :: "js_value list \<Rightarrow> js_value" where
  "Array_New elements = JSArray (map Some elements)"

definition Array_slot :: "js_value option list \<Rightarrow> nat \<Rightarrow> js_value option" where
  "Array_slot slots i = (if i < length slots then slots ! i else Some JSUndefined)"

text \<open>
  \<^verbatim>\<open>Array::New(context, length, next_value_callback)\<close> calls the callback once for every
  element, in order; the callback's captured variables are the state \<open>s\<close>. The result is
  empty as soon as one call returns an empty \<^verbatim>\<open>MaybeLocal\<close>, and the array of the values
  otherwise.
\<close>

primrec Array_New_elements ::
  "nat \<Rightarrow> ('s \<Rightarrow> js_value option \<times> 's) \<Rightarrow> 's \<Rightarrow> js_value list option" where
  "Array_New_elements 0 next_value s = Some []"
| "Array_New_elements (Suc n) next_value s =
     (case next_value s of
        (None, s') \<Rightarrow> None
      | (Some v, s') \<Rightarrow>
          (case Array_New_elements n next_value s' of
             None \<Rightarrow> None
           | Some vs \<Rightarrow> Some (v # vs)))"

definition Array_New_callback ::
  "nat \<Rightarrow> ('s \<Rightarrow> js_value option \<times> 's) \<Rightarrow> 's \<Rightarrow> js_value option" where
  "Array_New_callback n next_value s = map_option Array_New (Array_New_elements n next_value s)"

text \<open>
  \<^verbatim>\<open>MaybeLocal::ToLocalChecked()\<close> returns the value, and ends the process with a fatal
  error when the \<^verbatim>\<open>MaybeLocal\<close> is empty.
\<close>

datatype fatal = EmptyMaybeLocal

definition ToLocalChecked :: "'a option \<Rightarrow> fatal + 'a" where
  "ToLocalChecked m = (case m of None \<Rightarrow> Inl EmptyMaybeLocal | Some v \<Rightarrow> Inr v)"

text \<open>
  An isolate, as far as this file uses it, is known by its current context.
  \<^verbatim>\<open>Function::New(context, callback, data)\<close> returns a \<^verbatim>\<open>MaybeLocal\<close> that holds
  the new function with its attached data.
\<close>

type_synonym v8_context = nat

record isolate =
  current_context :: v8_context

definition Function_New :: "v8_context \<Rightarrow> js_value \<Rightarrow> js_value option" where
  "Function_New ctx data = Some (JSFunction data)"

subsection \<open>Collaborators: the value-conversion facility and the host callback\<close>

text \<open>
  A \<^verbatim>\<open>BinaryValueFactory\<close> and a host \<^verbatim>\<open>Callback\<close> are known by their identity (the
  shared pointer, the function pointer).
\<close>

type_synonym bv_factory_ref = nat
type_synonym Callback = nat

text \<open>
  Modelled from the spec: \<^verbatim>\<open>BinaryValueFactory::New(context, value)\<close>, declared in
  \<^verbatim>\<open>binary_value.h\<close>, which is not among the sources. The specification gives it as the
  conversion \<open>convert(context, managedValue) -> native value handle\<close> and leaves the
  conversion itself out of scope, so the handle is the record of which facility converted
  which value in which context.
\<close>

record BinaryValue =
  made_by :: bv_factory_ref
  made_in :: v8_context
  converted_from :: js_value

definition BinaryValueFactory_New :: "bv_factory_ref \<Rightarrow> v8_context \<Rightarrow> js_value \<Rightarrow> BinaryValue" where
  "BinaryValueFactory_New f ctx v = \<lparr>made_by = f, made_in = ctx, converted_from = v\<rparr>"

text \<open>
  One call of a host callback: which callback, with which identifier and handle. What the
  host does in the call is outside this file.
\<close>

record host_call =
  called :: Callback
  with_callback_id :: u64
  with_args :: BinaryValue

subsection \<open>The caller\<close>

record JSCallbackCaller =
  bv_factory :: bv_factory_ref
  callback :: Callback

subsection \<open>The caller registry\<close>

text \<open>
  The fields \<^verbatim>\<open>next_id_\<close> and \<^verbatim>\<open>callback_callers_\<close> of the registry, an unsigned
  64-bit counter and a map. The state of the program is the registry singleton together with
  the calls made into the host so far and with whether a script exception is pending in the
  engine: raised and not caught. When the entry point returns with an exception pending, the
  script call that entered it throws that exception.
\<close>

record JSCallbackCallerRegistry =
  next_id :: u64
  callback_callers :: "u64 \<rightharpoonup> JSCallbackCaller"

record world =
  singleton :: JSCallbackCallerRegistry
  host_calls :: "host_call list"
  pending_exception :: bool

text \<open>
  \<^verbatim>\<open>Array::Get(context, i)\<close> reads slot \<open>i\<close> and returns a \<^verbatim>\<open>MaybeLocal\<close>: it holds
  the element, or it is empty when the read raised, and the exception is then pending.
\<close>

definition Array_Get :: "js_value option list \<Rightarrow> nat \<Rightarrow> world \<Rightarrow> js_value option \<times> world" where
  "Array_Get slots i w =
     (case Array_slot slots i of
        None \<Rightarrow> (None, w\<lparr>pending_exception := True\<rparr>)
      | Some v \<Rightarrow> (Some v, w))"

definition DoCallback :: "JSCallbackCaller \<Rightarrow> v8_context \<Rightarrow> u64 \<Rightarrow> js_value \<Rightarrow> world \<Rightarrow> world" where
  "DoCallback c ctx callback_id args w =
     (let args_ptr = BinaryValueFactory_New (bv_factory c) ctx args
      in w\<lparr>host_calls := host_calls w @
             [\<lparr>called = callback c, with_callback_id = callback_id, with_args = args_ptr\<rparr>]\<rparr>)"

definition Register ::
  "bv_factory_ref \<Rightarrow> Callback \<Rightarrow> JSCallbackCallerRegistry \<Rightarrow> u64 \<times> JSCallbackCallerRegistry" where
  "Register f cb r =
     (let context_caller = \<lparr>bv_factory = f, callback = cb\<rparr>;
          callback_caller_id = next_id r
      in (callback_caller_id,
          r\<lparr>next_id := next_id r + 1,
            callback_callers := (callback_callers r)(callback_caller_id \<mapsto> context_caller)\<rparr>))"

definition Unregister :: "u64 \<Rightarrow> JSCallbackCallerRegistry \<Rightarrow> JSCallbackCallerRegistry" where
  "Unregister callback_caller_id r =
     r\<lparr>callback_callers := (callback_callers r)(callback_caller_id := None)\<rparr>"

text \<open>
  \<^verbatim>\<open>Get(id)\<close> returns the shared pointer found, or an empty one; it leaves the registry as
  it is, which the second component says.
\<close>

definition Get :: "u64 \<Rightarrow> JSCallbackCallerRegistry \<Rightarrow> JSCallbackCaller option \<times> JSCallbackCallerRegistry" where
  "Get callback_caller_id r =
     (case callback_callers r callback_caller_id of
        None \<Rightarrow> (None, r)
      | Some c \<Rightarrow> (Some c, r))"

text \<open>
  The singleton is default-constructed: no caller is registered. The header that gives the
  counter its first value is not part of the sources, so the first value is a parameter.
\<close>

definition initial_registry :: "u64 \<Rightarrow> JSCallbackCallerRegistry" where
  "initial_registry first_id = \<lparr>next_id = first_id, callback_callers = Map.empty\<rparr>"

subsection \<open>The holder\<close>

record JSCallbackCallerHolder =
  holder_callback_caller_id :: u64

definition JSCallbackCallerHolder_new ::
  "bv_factory_ref \<Rightarrow> Callback \<Rightarrow> world \<Rightarrow> JSCallbackCallerHolder \<times> world" where
  "JSCallbackCallerHolder_new f cb w =
     (case Register f cb (singleton w) of
        (i, r) \<Rightarrow> (\<lparr>holder_callback_caller_id = i\<rparr>, w\<lparr>singleton := r\<rparr>))"

definition JSCallbackCallerHolder_delete :: "JSCallbackCallerHolder \<Rightarrow> world \<Rightarrow> world" where
  "JSCallbackCallerHolder_delete h w =
     w\<lparr>singleton := Unregister (holder_callback_caller_id h) (singleton w)\<rparr>"

definition Holder_Get :: "JSCallbackCallerHolder \<Rightarrow> u64" where
  "Holder_Get h = holder_callback_caller_id h"

subsection \<open>The factory\<close>

text \<open>
  The context holder is known by the context it resolves to. Destroying the factory destroys
  its members, so its holder.
\<close>

record JSCallbackMaker =
  context_holder :: v8_context
  maker_bv_factory :: bv_factory_ref
  callback_caller_holder :: JSCallbackCallerHolder

definition JSCallbackMaker_new ::
  "v8_context \<Rightarrow> bv_factory_ref \<Rightarrow> Callback \<Rightarrow> world \<Rightarrow> JSCallbackMaker \<times> world" where
  "JSCallbackMaker_new ctx f cb w =
     (case JSCallbackCallerHolder_new f cb w of
        (h, w') \<Rightarrow>
          (\<lparr>context_holder = ctx, maker_bv_factory = f, callback_caller_holder = h\<rparr>, w'))"

definition JSCallbackMaker_delete :: "JSCallbackMaker \<Rightarrow> world \<Rightarrow> world" where
  "JSCallbackMaker_delete m w = JSCallbackCallerHolder_delete (callback_caller_holder m) w"

text \<open>
  Minting reads the holder's identifier and builds script values; it makes no call to the
  registry and no call to the host, so it returns the state it was given.
  \<^verbatim>\<open>ToLocalChecked()\<close> is applied to what \<^verbatim>\<open>Function::New\<close> returns.
\<close>

definition MakeJSCallback ::
  "isolate \<Rightarrow> JSCallbackMaker \<Rightarrow> u64 \<Rightarrow> world \<Rightarrow> fatal + BinaryValue \<times> world" where
  "MakeJSCallback isol m callback_id w =
     (let ctx = context_holder m;
          callback_caller_id_bigint = BigInt_NewFromUnsigned (Holder_Get (callback_caller_holder m));
          callback_id_bigint = BigInt_NewFromUnsigned callback_id;
          data_elements = [callback_caller_id_bigint, callback_id_bigint];
          data = Array_New data_elements
      in case ToLocalChecked (Function_New ctx data) of
           Inl e \<Rightarrow> Inl e
         | Inr func \<Rightarrow> Inr (BinaryValueFactory_New (maker_bv_factory m) ctx func, w))"

subsection \<open>The invocation entry point\<close>

text \<open>
  What V8 hands to the entry point: the isolate, the data attached to the called function,
  and the actual arguments. \<^verbatim>\<open>info[i]\<close> is \<^verbatim>\<open>undefined\<close> outside the arguments.
\<close>

record FunctionCallbackInfo =
  GetIsolate :: isolate
  Data :: js_value
  arguments :: "js_value list"

definition Length :: "FunctionCallbackInfo \<Rightarrow> int" where
  "Length info = int (length (arguments info))"

definition info_at :: "FunctionCallbackInfo \<Rightarrow> int \<Rightarrow> js_value" where
  "info_at info i =
     (if i < 0 \<or> Length info \<le> i then JSUndefined else arguments info ! nat i)"

text \<open>
  Every \<^verbatim>\<open>return\<close> of the entry point, in the order of the source. Both elements of
  the data are read before the first of them is looked at, and the entry point has no
  \<^verbatim>\<open>TryCatch\<close>: an exception that a read raised is still pending when it returns.
\<close>

datatype exit_point =
    DataNotArray
  | DataLengthNot2
  | CallerIdEmpty
  | CallerIdNotBigInt
  | CallerIdLossy
  | CallbackIdEmpty
  | CallbackIdNotBigInt
  | CallbackIdLossy
  | CallerNotFound
  | CallbackDone

definition OnCalledStatic :: "FunctionCallbackInfo \<Rightarrow> world \<Rightarrow> fatal + exit_point \<times> world" where
  "OnCalledStatic info w =
     (let ctx = current_context (GetIsolate info);
          data_value = Data info
      in case data_value of
           JSArray data_array \<Rightarrow>
             if length data_array \<noteq> 2 then Inr (DataLengthNot2, w)
             else
               (case Array_Get data_array 0 w of
                  (callback_caller_id_value_maybe, w0) \<Rightarrow>
               (case Array_Get data_array 1 w0 of
                  (callback_id_value_maybe, w1) \<Rightarrow>
                  (case callback_caller_id_value_maybe of
                     None \<Rightarrow> Inr (CallerIdEmpty, w1)
                   | Some (JSBigInt callback_caller_id_bigint) \<Rightarrow>
                       (case BigInt_Uint64Value callback_caller_id_bigint of
                          (callback_caller_id, lossless) \<Rightarrow>
                            if \<not> lossless then Inr (CallerIdLossy, w1)
                            else
                              (case callback_id_value_maybe of
                                 None \<Rightarrow> Inr (CallbackIdEmpty, w1)
                               | Some (JSBigInt callback_id_bigint) \<Rightarrow>
                                   (case BigInt_Uint64Value callback_id_bigint of
                                      (callback_id, lossless') \<Rightarrow>
                                        if \<not> lossless' then Inr (CallbackIdLossy, w1)
                                        else
                                          (case ToLocalChecked
                                                  (Array_New_callback (nat (Length info))
                                                     (\<lambda>idx. (Some (info_at info idx), idx + 1)) 0) of
                                             Inl e \<Rightarrow> Inl e
                                           | Inr args \<Rightarrow>
                                               (case Get callback_caller_id (singleton w1) of
                                                  (None, r) \<Rightarrow> Inr (CallerNotFound, w1\<lparr>singleton := r\<rparr>)
                                                | (Some callback_caller, r) \<Rightarrow>
                                                    Inr (CallbackDone,
                                                         DoCallback callback_caller ctx callback_id args
                                                           (w1\<lparr>singleton := r\<rparr>)))))
                               | Some _ \<Rightarrow> Inr (CallbackIdNotBigInt, w1)))
                   | Some _ \<Rightarrow> Inr (CallerIdNotBigInt, w1))))
         | _ \<Rightarrow> Inr (DataNotArray, w))"

text \<open>
  A script call of a function value with the given arguments: V8 runs the entry point of a
  native function with its attached data. A value that is not a function cannot be called.
  The call throws when the entry point returns with an exception pending.
\<close>

definition Call :: "isolate \<Rightarrow> js_value \<Rightarrow> js_value list \<Rightarrow> world \<Rightarrow> (fatal + exit_point \<times> world) option" where
  "Call isol f args w =
     (case f of
        JSFunction data \<Rightarrow> Some (OnCalledStatic \<lparr>GetIsolate = isol, Data = data, arguments = args\<rparr> w)
      | _ \<Rightarrow> None)"

subsection \<open>Sequences of registry operations\<close>

text \<open>
  A call of one of the three registry operations, and what it did: the identifier a
  \<^verbatim>\<open>Register\<close> returned with the caller it stored, the identifier an \<^verbatim>\<open>Unregister\<close>
  was given, the answer of a lookup.
\<close>

datatype registry_op =
    DoRegister bv_factory_ref Callback
  | DoUnregister u64
  | DoGet u64

datatype registry_event =
    Registered u64 JSCallbackCaller
  | Unregistered u64
  | Looked_up u64 "JSCallbackCaller option"

fun apply_op :: "registry_op \<Rightarrow> JSCallbackCallerRegistry \<Rightarrow> registry_event \<times> JSCallbackCallerRegistry" where
  "apply_op (DoRegister f cb) r =
     (case Register f cb r of (i, r') \<Rightarrow> (Registered i \<lparr>bv_factory = f, callback = cb\<rparr>, r'))"
| "apply_op (DoUnregister i) r = (Unregistered i, Unregister i r)"
| "apply_op (DoGet i) r = (case Get i r of (c, r') \<Rightarrow> (Looked_up i c, r'))"

fun run_ops :: "registry_op list \<Rightarrow> JSCallbackCallerRegistry \<Rightarrow> registry_event list \<times> JSCallbackCallerRegistry" where
  "run_ops [] r = ([], r)"
| "run_ops (x # xs) r =
     (case apply_op x r of
        (e, r') \<Rightarrow> (case run_ops xs r' of (es, r'') \<Rightarrow> (e # es, r'')))"

text \<open>The identifiers that the \<^verbatim>\<open>Register\<close> calls of a run returned, in order.\<close>

fun registered_ids :: "registry_event list \<Rightarrow> u64 list" where
  "registered_ids [] = []"
| "registered_ids (Registered i c # es) = i # registered_ids es"
| "registered_ids (e # es) = registered_ids es"

fun count_registers :: "registry_op list \<Rightarrow> nat" where
  "count_registers [] = 0"
| "count_registers (DoRegister f cb # xs) = Suc (count_registers xs)"
| "count_registers (x # xs) = count_registers xs"

text \<open>Whether an event registers or unregisters the identifier \<open>i\<close>.\<close>

fun about :: "u64 \<Rightarrow> registry_event \<Rightarrow> bool" where
  "about i (Registered j c) = (i = j)"
| "about i (Unregistered j) = (i = j)"
| "about i (Looked_up j c) = False"

text \<open>
  Churn: \<open>n\<close> times, register a caller and unregister the identifier just returned, the
  counter standing at \<open>k\<close> before the first call.
\<close>

fun churn :: "nat \<Rightarrow> nat \<Rightarrow> registry_op list" where
  "churn k 0 = []"
| "churn k (Suc n) = DoRegister 0 0 # DoUnregister (of_nat k) # churn (Suc k) n"

text \<open>The last event of a run that registers or unregisters \<open>i\<close>, if there is one.\<close>

fun last_about :: "u64 \<Rightarrow> registry_event list \<Rightarrow> registry_event option" where
  "last_about i [] = None"
| "last_about i (e # es) =
     (case last_about i es of
        Some e' \<Rightarrow> Some e'
      | None \<Rightarrow> (if about i e then Some e else None))"

subsection \<open>Malformed invocation data, in the words of the specification\<close>

text \<open>
  This predicate is written from the specification, to be compared with the entry point:
  the data is malformed when it is not an array of exactly two elements, or when element 0
  or element 1 is absent, is not a big-integer, or is a big-integer that does not convert
  losslessly to an unsigned 64-bit integer (converting it there and back changes it).
\<close>

definition not_an_identifier :: "js_value option \<Rightarrow> bool" where
  "not_an_identifier v =
     (case v of
        None \<Rightarrow> True
      | Some (JSBigInt n) \<Rightarrow> uint (word_of_int n :: u64) \<noteq> n
      | Some _ \<Rightarrow> True)"

definition malformed_data :: "js_value \<Rightarrow> bool" where
  "malformed_data d =
     (case d of
        JSArray slots \<Rightarrow>
          length slots \<noteq> 2 \<or> not_an_identifier (Array_slot slots 0) \<or> not_an_identifier (Array_slot slots 1)
      | _ \<Rightarrow> True)"

text \<open>
  Whether one of the two reads of the data raises: the data is an array of two elements, and
  reading element 0 or element 1 raises an exception.
\<close>

definition read_raises :: "js_value \<Rightarrow> bool" where
  "read_raises d =
     (case d of
        JSArray slots \<Rightarrow> length slots = 2 \<and> (Array_slot slots 0 = None \<or> Array_slot slots 1 = None)
      | _ \<Rightarrow> False)"

subsection \<open>Minting several functions from one factory\<close>

text \<open>
  The calls \<^verbatim>\<open>MakeJSCallback(isolate, id)\<close> of a list, one after the other on the same
  factory; the process ends at the first call that aborts.
\<close>

fun mint_all :: "JSCallbackMaker \<Rightarrow> (isolate \<times> u64) list \<Rightarrow> world \<Rightarrow> fatal + BinaryValue list \<times> world" where
  "mint_all m [] w = Inr ([], w)"
| "mint_all m ((isol, k) # ks) w =
     (case MakeJSCallback isol m k w of
        Inl e \<Rightarrow> Inl e
      | Inr (bv, w') \<Rightarrow>
          (case mint_all m ks w' of
             Inl e \<Rightarrow> Inl e
           | Inr (bvs, w'') \<Rightarrow> Inr (bv # bvs, w'')))"

subsection \<open>The state after a wrap of the counter, and a small scenario\<close>

text \<open>
  The registry after this run from the empty singleton: one caller is registered (it gets
  the identifier 0), then \<open>2 ^ 64 - 1\<close> times a caller is registered and unregistered
  again. The counter has then been incremented \<open>2 ^ 64\<close> times.
\<close>

definition wrapped_registry :: JSCallbackCallerRegistry where
  "wrapped_registry = snd (run_ops (DoRegister 1 1 # churn 1 (2 ^ 64 - 1)) (initial_registry 0))"

text \<open>
  A scenario for concrete checks: an isolate, the state with the empty singleton and no
  exception pending, one factory constructed there, the state after its construction, and
  the function it mints for the callback identifier 9.
\<close>

definition running :: isolate where
  "running = \<lparr>current_context = 7\<rparr>"

definition empty_world :: world where
  "empty_world = \<lparr>singleton = initial_registry 0, host_calls = [], pending_exception = False\<rparr>"

definition example_maker :: JSCallbackMaker where
  "example_maker = fst (JSCallbackMaker_new 7 1 2 empty_world)"

definition example_world :: world where
  "example_world = snd (JSCallbackMaker_new 7 1 2 empty_world)"

definition example_function :: js_value where
  "example_function = JSFunction (JSArray [Some (JSBigInt 0), Some (JSBigInt 9)])"

text \<open>
  The state in which the function of the scenario outlives its factory and the counter wraps:
  the factory is destroyed; then \<open>2 ^ 64 - 1\<close> times a caller is registered and
  unregistered again; then another caller, with the host callback 6, is registered.
\<close>

definition reissued_world :: world where
  "reissued_world =
     (JSCallbackMaker_delete example_maker example_world)
       \<lparr>singleton :=
          snd (run_ops (churn 1 (2 ^ 64 - 1) @ [DoRegister 5 6])
                 (singleton (JSCallbackMaker_delete example_maker example_world)))\<rparr>"

section \<open>Properties\<close>

subsection \<open>The registry over a run of operations\<close>

lemma Register_eq:
  "Register f cb r =
     (next_id r,
      r\<lparr>next_id := next_id r + 1,
        callback_callers := (callback_callers r)(next_id r \<mapsto> \<lparr>bv_factory = f, callback = cb\<rparr>)\<rparr>)"
  by (simp add: Register_def Let_def)

lemma Get_eq: "Get i r = (callback_callers r i, r)"
  by (simp add: Get_def split: option.split)

lemma Unregister_simps:
  "next_id (Unregister i r) = next_id r"
  "callback_callers (Unregister i r) = (callback_callers r)(i := None)"
  by (simp_all add: Unregister_def)

lemma apply_op_eq:
  "apply_op (DoRegister f cb) r = (Registered (next_id r) \<lparr>bv_factory = f, callback = cb\<rparr>, snd (Register f cb r))"
  "apply_op (DoUnregister i) r = (Unregistered i, Unregister i r)"
  "apply_op (DoGet i) r = (Looked_up i (callback_callers r i), r)"
  by (simp_all add: Register_eq Get_eq)

declare apply_op.simps [simp del]

lemma run_ops_Cons:
  "run_ops (x # xs) r =
     (fst (apply_op x r) # fst (run_ops xs (snd (apply_op x r))),
      snd (run_ops xs (snd (apply_op x r))))"
  by (simp add: case_prod_beta)

declare run_ops.simps(2) [simp del]

lemma run_ops_append:
  "run_ops (xs @ ys) r =
     (fst (run_ops xs r) @ fst (run_ops ys (snd (run_ops xs r))),
      snd (run_ops ys (snd (run_ops xs r))))"
  by (induction xs arbitrary: r) (simp_all add: run_ops_Cons)

lemma apply_op_next_id:
  "next_id (snd (apply_op x r)) = next_id r + of_nat (count_registers [x])"
  by (cases x) (simp_all add: apply_op_eq Register_eq Unregister_simps)

lemma count_registers_Cons: "count_registers (x # xs) = count_registers [x] + count_registers xs"
  by (cases x) simp_all

lemma count_registers_append: "count_registers (xs @ ys) = count_registers xs + count_registers ys"
proof (induction xs)
  case Nil
  show ?case by simp
next
  case (Cons x xs)
  show ?case
    using Cons.IH count_registers_Cons[of x "xs @ ys"] count_registers_Cons[of x xs] by simp
qed

lemma run_ops_next_id:
  "next_id (snd (run_ops xs r)) = next_id r + of_nat (count_registers xs)"
proof (induction xs arbitrary: r)
  case Nil
  show ?case by simp
next
  case (Cons x xs)
  show ?case
    by (simp only: run_ops_Cons snd_conv Cons.IH apply_op_next_id count_registers_Cons[of x xs])
       (simp add: add.assoc)
qed

lemma run_ops_registered_ids:
  "registered_ids (fst (run_ops xs r)) = map (\<lambda>k. next_id r + of_nat k) [0..<count_registers xs]"
proof (induction xs arbitrary: r)
  case Nil
  show ?case by simp
next
  case (Cons x xs)
  show ?case
  proof (cases x)
    case (DoRegister f cb)
    have "map (\<lambda>k. next_id r + of_nat k) [0..<Suc (count_registers xs)]
        = next_id r # map (\<lambda>k. next_id r + 1 + of_nat k) [0..<count_registers xs]"
      by (simp add: map_upt_Suc add.assoc del: upt_Suc)
    then show ?thesis
      using DoRegister Cons.IH[of "snd (Register f cb r)"]
      by (simp add: run_ops_Cons apply_op_eq Register_eq del: upt_Suc)
  next
    case (DoUnregister i)
    then show ?thesis using Cons.IH[of "Unregister i r"]
      by (simp add: run_ops_Cons apply_op_eq Unregister_simps)
  next
    case (DoGet i)
    then show ?thesis using Cons.IH[of r]
      by (simp add: run_ops_Cons apply_op_eq)
  qed
qed

lemma unat_plus_of_nat:
  "unat (a::u64) + k < 2 ^ 64 \<Longrightarrow> unat (a + of_nat k) = unat a + k"
  by (simp add: unat_word_ariths unat_of_nat take_bit_nat_eq_self)

lemma ids_increasing:
  assumes "unat (a::u64) + n \<le> 2 ^ 64"
  shows "sorted_wrt (<) (map (\<lambda>k. a + of_nat k) [0..<n])"
proof -
  have "a + of_nat i < a + of_nat j" if "i < j" "j < n" for i j
  proof -
    have "unat (a + of_nat i) = unat a + i" "unat (a + of_nat j) = unat a + j"
      using that assms by (simp_all add: unat_plus_of_nat)
    then show ?thesis using that by (simp add: word_less_nat_alt)
  qed
  then show ?thesis by (simp add: sorted_wrt_iff_nth_less)
qed


lemma apply_op_callers:
  "callback_callers (snd (apply_op x r)) i =
     (case fst (apply_op x r) of
        Registered j c \<Rightarrow> if i = j then Some c else callback_callers r i
      | Unregistered j \<Rightarrow> if i = j then None else callback_callers r i
      | Looked_up j c \<Rightarrow> callback_callers r i)"
  by (cases x) (simp_all add: apply_op_eq Register_eq Unregister_simps)

lemma run_ops_callers:
  "callback_callers (snd (run_ops xs r)) i =
     (case last_about i (fst (run_ops xs r)) of
        None \<Rightarrow> callback_callers r i
      | Some (Registered j c) \<Rightarrow> Some c
      | Some _ \<Rightarrow> None)"
proof (induction xs arbitrary: r)
  case Nil
  show ?case by simp
next
  case (Cons x xs)
  show ?case
    using Cons.IH[of "snd (apply_op x r)"] apply_op_callers[of x r i]
    by (auto simp add: run_ops_Cons split: option.splits registry_event.splits if_splits)
qed

lemma last_about_None: "last_about i es = None \<longleftrightarrow> (\<forall>e \<in> set es. \<not> about i e)"
  by (induction es) (auto split: option.splits)

lemma last_about_Some:
  "last_about i es = Some e \<longleftrightarrow>
     (\<exists>before after. es = before @ e # after \<and> about i e \<and> (\<forall>x \<in> set after. \<not> about i x))"
proof (induction es arbitrary: e)
  case Nil
  show ?case by simp
next
  case (Cons a es)
  show ?case
  proof (cases "last_about i es")
    case None
    then have no: "\<forall>x \<in> set es. \<not> about i x" by (simp add: last_about_None)
    show ?thesis
    proof
      assume "last_about i (a # es) = Some e"
      then have "about i a" "e = a" using None by (auto split: if_splits)
      then have "a # es = [] @ e # es \<and> about i e \<and> (\<forall>x \<in> set es. \<not> about i x)" using no by simp
      then show "\<exists>before after. a # es = before @ e # after \<and> about i e \<and> (\<forall>x \<in> set after. \<not> about i x)"
        by blast
    next
      assume "\<exists>before after. a # es = before @ e # after \<and> about i e \<and> (\<forall>x \<in> set after. \<not> about i x)"
      then obtain before after where s: "a # es = before @ e # after" "about i e" by blast
      have "before = []"
      proof (cases before)
        case Nil then show ?thesis .
      next
        case (Cons b bs)
        then have "e \<in> set es" using s(1) by auto
        then show ?thesis using no s(2) by blast
      qed
      then show "last_about i (a # es) = Some e" using s None by simp
    qed
  next
    case (Some e')
    have ih: "e' = e \<longleftrightarrow> (\<exists>before after. es = before @ e # after \<and> about i e \<and> (\<forall>x \<in> set after. \<not> about i x))" for e
      using Cons.IH[of e] unfolding Some by simp
    from ih[of e'] obtain b' a' where e': "es = b' @ e' # a'" "about i e'" "\<forall>x \<in> set a'. \<not> about i x" by blast
    show ?thesis
    proof
      assume "last_about i (a # es) = Some e"
      then have "e' = e" using Some by simp
      then have "a # es = (a # b') @ e # a' \<and> about i e \<and> (\<forall>x \<in> set a'. \<not> about i x)" using e' by simp
      then show "\<exists>before after. a # es = before @ e # after \<and> about i e \<and> (\<forall>x \<in> set after. \<not> about i x)"
        by blast
    next
      assume "\<exists>before after. a # es = before @ e # after \<and> about i e \<and> (\<forall>x \<in> set after. \<not> about i x)"
      then obtain before after where s: "a # es = before @ e # after" "about i e" "\<forall>x \<in> set after. \<not> about i x" by blast
      have "before \<noteq> []"
      proof
        assume "before = []"
        then have "es = after" using s(1) by simp
        then have "e' \<in> set after" using e'(1) by auto
        then show False using s(3) e'(2) by blast
      qed
      then obtain bs where "before = a # bs" using s(1) by (cases before) auto
      then have "es = bs @ e # after" using s(1) by simp
      then have "e' = e" using ih[of e] s(2,3) by blast
      then show "last_about i (a # es) = Some e" using Some by simp
    qed
  qed
qed


lemma last_about_append:
  "last_about i (xs @ ys) = (case last_about i ys of Some e \<Rightarrow> Some e | None \<Rightarrow> last_about i xs)"
  by (induction xs) (auto split: option.splits)

lemma last_about_in: "last_about i es = Some e \<Longrightarrow> e \<in> set es \<and> about i e"
  by (induction es) (auto split: option.splits if_splits)

lemma about_cases: "about i e \<Longrightarrow> e = Unregistered i \<or> (\<exists>c. e = Registered i c)"
  by (cases e) auto

lemma last_about_registered:
  assumes "Unregistered i \<notin> set after"
  shows "\<exists>c'. last_about i (before @ Registered i c # after) = Some (Registered i c')"
proof (cases "last_about i after")
  case None
  then show ?thesis by (simp add: last_about_append)
next
  case (Some e)
  then have "e \<in> set after" "about i e" using last_about_in by blast+
  then obtain c' where "e = Registered i c'" using assms about_cases by blast
  then show ?thesis using Some by (simp add: last_about_append)
qed

lemma run_ops_absent:
  "callback_callers r i = None \<Longrightarrow> \<forall>c. Registered i c \<notin> set (fst (run_ops xs r)) \<Longrightarrow>
   callback_callers (snd (run_ops xs r)) i = None"
proof -
  assume n: "callback_callers r i = None" and no: "\<forall>c. Registered i c \<notin> set (fst (run_ops xs r))"
  show ?thesis
  proof (cases "last_about i (fst (run_ops xs r))")
    case None
    then show ?thesis using n by (simp add: run_ops_callers)
  next
    case (Some e)
    then have "e \<in> set (fst (run_ops xs r))" "about i e" using last_about_in by blast+
    then have "e = Unregistered i" using no about_cases by blast
    then show ?thesis using Some by (simp add: run_ops_callers)
  qed
qed

lemma run_ops_churn_step:
  "snd (run_ops (churn k (Suc n)) r)
     = snd (run_ops (churn (Suc k) n) (Unregister (of_nat k) (snd (Register 0 0 r))))"
  by (simp add: run_ops_Cons apply_op_eq)

lemma run_ops_churn:
  "next_id r = of_nat k \<Longrightarrow>
   callback_callers (snd (run_ops (churn k n) r)) j =
     (if j \<in> of_nat ` {k..<k + n} then None else callback_callers r j)"
proof (induction n arbitrary: k r)
  case 0
  then show ?case by simp
next
  case (Suc n)
  let ?r1 = "Unregister (of_nat k) (snd (Register 0 0 r))"
  have n1: "next_id ?r1 = of_nat (Suc k)" using Suc.prems by (simp add: Unregister_simps Register_eq)
  have c1: "callback_callers ?r1 j = (if j = of_nat k then None else callback_callers r j)"
    using Suc.prems by (simp add: Unregister_simps Register_eq)
  have s: "{k..<k + Suc n} = insert k {Suc k..<Suc k + n}" by auto
  have "callback_callers (snd (run_ops (churn k (Suc n)) r)) j
      = (if j \<in> of_nat ` {Suc k..<Suc k + n} then None else callback_callers ?r1 j)"
    unfolding run_ops_churn_step by (rule Suc.IH[OF n1])
  also have "\<dots> = (if j \<in> of_nat ` {k..<k + Suc n} then None else callback_callers r j)"
    unfolding s c1 by auto
  finally show ?case .
qed

lemma count_registers_churn: "count_registers (churn k n) = n"
  by (induction n arbitrary: k) simp_all


subsection \<open>The entry point on the data of a minted function\<close>

text \<open>
  The element callback of the entry point reads the arguments in order and never returns
  empty, so the array of the arguments is always built: it holds the arguments, as many and
  in the order given.
\<close>

lemma Array_New_elements_info:
  "i + n \<le> length (arguments info) \<Longrightarrow>
   Array_New_elements n (\<lambda>idx. (Some (info_at info idx), idx + 1)) (int i)
     = Some (take n (drop i (arguments info)))"
proof (induction n arbitrary: i)
  case 0
  show ?case by simp
next
  case (Suc n)
  have "Suc i + n \<le> length (arguments info)" using Suc.prems by simp
  from Suc.IH[OF this] have ih: "Array_New_elements n (\<lambda>idx. (Some (info_at info idx), idx + 1)) (int i + 1)
     = Some (take n (drop (Suc i) (arguments info)))" by (simp add: add.commute)
  have lt: "i < length (arguments info)" using Suc.prems by simp
  have "info_at info (int i) = arguments info ! i" using lt by (simp add: info_at_def Length_def)
  moreover have "take (Suc n) (drop i (arguments info)) = arguments info ! i # take n (drop (Suc i) (arguments info))"
    using lt by (simp add: Cons_nth_drop_Suc[symmetric])
  ultimately show ?case using ih by simp
qed

lemma args_array:
  "Array_New_callback (nat (Length info)) (\<lambda>idx. (Some (info_at info idx), idx + 1)) 0
    = Some (Array_New (arguments info))"
  using Array_New_elements_info[of 0 "length (arguments info)" info]
  by (simp add: Array_New_callback_def Length_def)

lemma Uint64Value_uint: "BigInt_Uint64Value (uint (c::u64)) = (c, True)"
  using uint_lt2p[of c] by (simp add: BigInt_Uint64Value_def)

lemma Array_Get_eq:
  "Array_Get slots i w =
     (Array_slot slots i, if Array_slot slots i = None then w\<lparr>pending_exception := True\<rparr> else w)"
  by (simp add: Array_Get_def split: option.split)

lemma OnCalledStatic_decoded:
  "Data info = Array_New [BigInt_NewFromUnsigned c, BigInt_NewFromUnsigned k] \<Longrightarrow>
   OnCalledStatic info w =
     (case callback_callers (singleton w) c of
        None \<Rightarrow> Inr (CallerNotFound, w)
      | Some caller \<Rightarrow>
          Inr (CallbackDone,
               DoCallback caller (current_context (GetIsolate info)) k (Array_New (arguments info)) w))"
  by (simp add: OnCalledStatic_def Array_New_def BigInt_NewFromUnsigned_def Array_Get_eq Array_slot_def
      Uint64Value_uint args_array[unfolded Array_New_def] ToLocalChecked_def Get_def split: option.split)

lemma MakeJSCallback_Inr:
  "MakeJSCallback isol m k w = Inr (bv, w') \<Longrightarrow>
     w' = w \<and>
     bv = BinaryValueFactory_New (maker_bv_factory m) (context_holder m)
            (JSFunction (Array_New [BigInt_NewFromUnsigned (Holder_Get (callback_caller_holder m)),
                                    BigInt_NewFromUnsigned k]))"
  by (auto simp: MakeJSCallback_def Let_def ToLocalChecked_def Function_New_def split: if_splits)

lemma Call_minted:
  "MakeJSCallback isol m k w = Inr (bv, w') \<Longrightarrow>
   Call isol' (converted_from bv) args w2 =
     Some (case callback_callers (singleton w2) (Holder_Get (callback_caller_holder m)) of
        None \<Rightarrow> Inr (CallerNotFound, w2)
      | Some caller \<Rightarrow>
          Inr (CallbackDone, DoCallback caller (current_context isol') k (Array_New args) w2))"
  by (drule MakeJSCallback_Inr) (simp add: Call_def BinaryValueFactory_New_def OnCalledStatic_decoded split: option.split)

lemma lossless_iff: "snd (BigInt_Uint64Value n) \<longleftrightarrow> uint (word_of_int n :: u64) = n"
proof -
  have "n mod 2 ^ 64 = n \<longleftrightarrow> 0 \<le> n \<and> n < 2 ^ 64"
    by (metis mod_pos_pos_trivial pos_mod_bound pos_mod_sign zero_less_numeral zero_less_power)
  then show ?thesis by (auto simp add: BigInt_Uint64Value_def uint_word_of_int take_bit_eq_mod)
qed

lemma OnCalledStatic_returns:
  "\<exists>e w'. OnCalledStatic info w = Inr (e, w')"
  by (auto simp: OnCalledStatic_def Let_def Get_eq Array_Get_eq args_array ToLocalChecked_def
      split: js_value.splits option.splits prod.splits)


lemma OnCalledStatic_well_formed:
  "\<not> malformed_data (Data info) \<Longrightarrow>
   \<exists>e w'. OnCalledStatic info w = Inr (e, w') \<and> (e = CallbackDone \<or> e = CallerNotFound)"
  by (auto simp: malformed_data_def not_an_identifier_def OnCalledStatic_def Let_def Get_eq Array_Get_eq
      args_array ToLocalChecked_def lossless_iff[symmetric]
      split: js_value.splits option.splits prod.splits)

lemma minted_data_well_formed:
  "\<not> malformed_data (Array_New [BigInt_NewFromUnsigned c, BigInt_NewFromUnsigned k])"
  by (simp add: malformed_data_def not_an_identifier_def Array_New_def Array_slot_def BigInt_NewFromUnsigned_def)

lemma mint_all_frame: "mint_all m ks w = Inr (bvs, w') \<Longrightarrow> w' = w \<and> length bvs = length ks"
proof (induction ks arbitrary: bvs)
  case Nil
  then show ?case by simp
next
  case (Cons x ks)
  obtain isol k where x: "x = (isol, k)" by (cases x)
  from Cons.prems x obtain bv w1 where a: "MakeJSCallback isol m k w = Inr (bv, w1)"
    by (auto split: sum.splits)
  then have w1: "w1 = w" by (simp add: MakeJSCallback_Inr)
  from Cons.prems x a w1 obtain bvs' w2 where b: "mint_all m ks w = Inr (bvs', w2)" "bvs = bv # bvs'" "w' = w2"
    by (auto split: sum.splits)
  from Cons.IH[of bvs'] b show ?case by auto
qed

subsection \<open>The counter after a wrap\<close>

lemma of_nat_image_no_zero: "(0::u64) \<notin> of_nat ` {1..<1 + (2 ^ 64 - 1)}"
proof
  assume "(0::u64) \<in> of_nat ` {1..<1 + (2 ^ 64 - 1)}"
  then obtain x :: nat where x: "1 \<le> x" "x < 2 ^ 64" "(of_nat x :: u64) = 0" by auto
  from x(3) have "2 ^ 64 dvd x" by (simp add: word_of_nat_eq_0_iff)
  then show False using x(1,2) by (auto dest: dvd_imp_le)
qed

lemma wrapped_registry_next_id: "next_id wrapped_registry = 0"
  by (simp add: wrapped_registry_def run_ops_next_id count_registers_churn initial_registry_def)

lemma wrapped_registry_callers:
  "callback_callers wrapped_registry 0 = Some \<lparr>bv_factory = 1, callback = 1\<rparr>"
proof -
  let ?r1 = "snd (Register 1 1 (initial_registry 0))"
  have n1: "next_id ?r1 = of_nat 1" by (simp add: Register_eq initial_registry_def)
  have "wrapped_registry = snd (run_ops (churn 1 (2 ^ 64 - 1)) ?r1)"
    by (simp add: wrapped_registry_def run_ops_Cons apply_op_eq)
  then have "callback_callers wrapped_registry 0 = callback_callers ?r1 0"
    using run_ops_churn[OF n1, of "2 ^ 64 - 1" 0] of_nat_image_no_zero by simp
  then show ?thesis by (simp add: Register_eq initial_registry_def)
qed

text \<open>With the counter at its greatest value, the next identifier after it is 0.\<close>

lemma counter_at_maximum_wraps:
  "registered_ids (fst (run_ops [DoRegister 0 0, DoRegister 0 0] \<lparr>next_id = - 1, callback_callers = Map.empty\<rparr>))
     = [18446744073709551615, 0]"
  by (simp add: run_ops_Cons apply_op_eq Register_eq)

text \<open>
  From the empty singleton, and as long as \<^verbatim>\<open>Register\<close> has been called fewer than
  \<open>2 ^ 64\<close> times, no caller is registered under the value of the counter.
\<close>

lemma Registered_in_registered_ids:
  "Registered i c \<in> set es \<Longrightarrow> i \<in> set (registered_ids es)"
  by (induction es rule: registered_ids.induct) auto

lemma fresh_until_wraparound:
  assumes "count_registers xs < 2 ^ 64"
  shows "callback_callers (snd (run_ops xs (initial_registry first_id)))
           (next_id (snd (run_ops xs (initial_registry first_id)))) = None"
proof -
  let ?es = "fst (run_ops xs (initial_registry first_id))"
  let ?n = "count_registers xs"
  let ?i = "first_id + of_nat ?n"
  have "\<forall>c. Registered ?i c \<notin> set ?es"
  proof (intro allI notI)
    fix c assume "Registered ?i c \<in> set ?es"
    then have "?i \<in> set (registered_ids ?es)"
      by (rule Registered_in_registered_ids)
    then obtain k where k: "k < ?n" "first_id + of_nat k = ?i"
      by (auto simp add: run_ops_registered_ids initial_registry_def)
    then have "(of_nat k :: u64) = of_nat ?n" by simp
    then have "unat (of_nat k :: u64) = unat (of_nat ?n :: u64)" by simp
    then have "k = ?n" using k(1) assms by (simp add: unat_of_nat)
    then show False using k(1) by simp
  qed
  then show ?thesis
    using run_ops_absent[of "initial_registry first_id" ?i xs]
    by (simp add: run_ops_next_id initial_registry_def)
qed

subsection \<open>Constructing and destroying a factory\<close>

lemma JSCallbackMaker_new_eq:
  "JSCallbackMaker_new ctx f cb w =
     (\<lparr>context_holder = ctx, maker_bv_factory = f,
       callback_caller_holder = \<lparr>holder_callback_caller_id = next_id (singleton w)\<rparr>\<rparr>,
      w\<lparr>singleton := snd (Register f cb (singleton w))\<rparr>)"
  by (simp add: JSCallbackMaker_new_def JSCallbackCallerHolder_new_def Register_eq)

lemma JSCallbackMaker_delete_eq:
  "JSCallbackMaker_delete m w =
     w\<lparr>singleton := Unregister (Holder_Get (callback_caller_holder m)) (singleton w)\<rparr>"
  by (simp add: JSCallbackMaker_delete_def JSCallbackCallerHolder_delete_def Holder_Get_def)

subsection \<open>The scenario, evaluated\<close>

lemma example_maker_eq:
  "example_maker = \<lparr>context_holder = 7, maker_bv_factory = 1,
       callback_caller_holder = \<lparr>holder_callback_caller_id = 0\<rparr>\<rparr>"
  by (simp add: example_maker_def JSCallbackMaker_new_eq empty_world_def initial_registry_def)

lemma example_world_eq:
  "example_world = \<lparr>singleton = \<lparr>next_id = 1, callback_callers = [0 \<mapsto> \<lparr>bv_factory = 1, callback = 2\<rparr>]\<rparr>,
                     host_calls = [], pending_exception = False\<rparr>"
  by (simp add: example_world_def JSCallbackMaker_new_eq empty_world_def initial_registry_def Register_eq)

lemma example_new: "JSCallbackMaker_new 7 1 2 empty_world = (example_maker, example_world)"
  by (simp add: example_maker_def example_world_def)

lemma example_mint:
  "MakeJSCallback running example_maker 9 example_world
     = Inr (\<lparr>made_by = 1, made_in = 7, converted_from = example_function\<rparr>, example_world)"
  by (simp add: MakeJSCallback_def Let_def ToLocalChecked_def Function_New_def running_def
      example_maker_eq Holder_Get_def BigInt_NewFromUnsigned_def Array_New_def
      BinaryValueFactory_New_def example_function_def)

lemma reissued_registry:
  "callback_callers (singleton reissued_world) 0 = Some \<lparr>bv_factory = 5, callback = 6\<rparr>"
proof -
  let ?d = "singleton (JSCallbackMaker_delete example_maker example_world)"
  have n: "next_id ?d = of_nat 1"
    by (simp add: JSCallbackMaker_delete_eq example_world_eq Unregister_simps)
  have "next_id (snd (run_ops (churn 1 (2 ^ 64 - 1)) ?d)) = 0"
    by (simp add: run_ops_next_id count_registers_churn n)
  then show ?thesis
    by (simp add: reissued_world_def run_ops_append run_ops_Cons apply_op_eq Register_eq)
qed

section \<open>The claims\<close>

subsection \<open>C1: a call after the factory is destroyed\<close>

text \<open>
  What the code does keep. Take a function minted by \<^verbatim>\<open>MakeJSCallback\<close> on a factory,
  and destroy the factory in any state. In the state the destructor leaves, and after any
  registry operations that follow, as long as no \<^verbatim>\<open>Register\<close> among them returns the
  holder's identifier again, a call of the function finds no caller and changes nothing.
\<close>

lemma ignored_until_identifier_reissued:
  assumes "MakeJSCallback isol m k w = Inr (bv, w')"
  shows "fst (Get (Holder_Get (callback_caller_holder m)) (singleton (JSCallbackMaker_delete m w2))) = None
       \<and> Call isol' (converted_from bv) args (JSCallbackMaker_delete m w2)
           = Some (Inr (CallerNotFound, JSCallbackMaker_delete m w2))
       \<and> (run_ops later (singleton (JSCallbackMaker_delete m w2)) = (evs, r) \<and>
          (\<forall>c. Registered (Holder_Get (callback_caller_holder m)) c \<notin> set evs) \<and>
          singleton w3 = r \<longrightarrow>
            fst (Get (Holder_Get (callback_caller_holder m)) (singleton w3)) = None \<and>
            Call isol' (converted_from bv) args w3 = Some (Inr (CallerNotFound, w3)))"
proof -
  let ?i = "Holder_Get (callback_caller_holder m)"
  have d: "callback_callers (singleton (JSCallbackMaker_delete m w2)) ?i = None"
    by (simp add: JSCallbackMaker_delete_eq Unregister_simps)
  have now: "Call isol' (converted_from bv) args (JSCallbackMaker_delete m w2)
           = Some (Inr (CallerNotFound, JSCallbackMaker_delete m w2))"
    using Call_minted[OF assms, of isol' args "JSCallbackMaker_delete m w2"] d by simp
  have later: "callback_callers (singleton w3) ?i = None \<and>
      Call isol' (converted_from bv) args w3 = Some (Inr (CallerNotFound, w3))"
    if l: "run_ops later (singleton (JSCallbackMaker_delete m w2)) = (evs, r)"
      and n: "\<forall>c. Registered ?i c \<notin> set evs"
      and s: "singleton w3 = r"
  proof -
    have "callback_callers (snd (run_ops later (singleton (JSCallbackMaker_delete m w2)))) ?i = None"
      using d l n by (intro run_ops_absent) simp_all
    then have "callback_callers (singleton w3) ?i = None" using l s by simp
    then show ?thesis using Call_minted[OF assms, of isol' args w3] by simp
  qed
  show ?thesis using d now later by (simp add: Get_eq)
qed

text \<open>
  C1. A function minted by \<^verbatim>\<open>MakeJSCallback\<close> and called after its factory was
  destroyed must call no host callback: the lookup must be empty. The comment in
  \<^verbatim>\<open>MakeJSCallback\<close> promises the same (such a callback "is safely ignored"). The code
  breaks this once the unsigned 64-bit counter has wrapped: in the scenario the factory gets
  the identifier 0 and mints a function for the callback identifier 9, the factory is
  destroyed and the lookup of 0 is empty; after \<open>2 ^ 64 - 1\<close> further registrations
  \<^verbatim>\<open>Register\<close> returns 0 again, for a caller with the host callback 6. A call of the
  stale function then finds that caller and calls the host callback 6 with the identifier 9.
\<close>

theorem stale_function_reaches_new_caller:
  "MakeJSCallback running example_maker 9 example_world
     = Inr (\<lparr>made_by = 1, made_in = 7, converted_from = example_function\<rparr>, example_world)
   \<and> fst (Get 0 (singleton (JSCallbackMaker_delete example_maker example_world))) = None
   \<and> Call running example_function [JSNumber 1] reissued_world
       = Some (Inr (CallbackDone,
            reissued_world\<lparr>host_calls :=
              [\<lparr>called = 6, with_callback_id = 9,
                with_args = \<lparr>made_by = 5, made_in = 7,
                             converted_from = JSArray [Some (JSNumber 1)]\<rparr>\<rparr>]\<rparr>))"
proof -
  have g: "fst (Get 0 (singleton (JSCallbackMaker_delete example_maker example_world))) = None"
    by (simp add: Get_eq JSCallbackMaker_delete_eq Unregister_simps example_maker_eq Holder_Get_def)
  have h: "host_calls reissued_world = []"
    by (simp add: reissued_world_def JSCallbackMaker_delete_eq example_world_eq)
  have i: "Holder_Get (callback_caller_holder example_maker) = 0"
    by (simp add: example_maker_eq Holder_Get_def)
  have "Call running example_function [JSNumber 1] reissued_world
       = Some (Inr (CallbackDone,
            DoCallback \<lparr>bv_factory = 5, callback = 6\<rparr> (current_context running) 9
              (Array_New [JSNumber 1]) reissued_world))"
    using Call_minted[OF example_mint, of running "[JSNumber 1]" reissued_world]
    by (simp add: i reissued_registry)
  then show ?thesis
    using g example_mint
    by (simp add: DoCallback_def h BinaryValueFactory_New_def running_def Array_New_def)
qed

subsection \<open>C2: a call while the caller is registered\<close>

text \<open>
  C2. Take a function minted by \<^verbatim>\<open>MakeJSCallback\<close> with the callback identifier \<open>k\<close> on
  a factory constructed with the conversion facility \<open>f\<close> and the host callback \<open>cb\<close>.
  In every state where the factory's caller is still registered under its identifier, a call
  of the function with the arguments \<open>args\<close> calls the host callback exactly once: one call
  is added, of \<open>cb\<close>, with the identifier \<open>k\<close> and with the conversion of the array that
  holds exactly \<open>args\<close>, in order; nothing else changes.
\<close>

theorem call_while_registered:
  assumes "JSCallbackMaker_new ctx f cb w0 = (m, w1)"
      and "MakeJSCallback isol m k w = Inr (bv, w')"
      and "fst (Get (Holder_Get (callback_caller_holder m)) (singleton w2)) = Some \<lparr>bv_factory = f, callback = cb\<rparr>"
  shows "Call isol' (converted_from bv) args w2 =
           Some (Inr (CallbackDone,
                      w2\<lparr>host_calls := host_calls w2 @
                           [\<lparr>called = cb, with_callback_id = k,
                             with_args = BinaryValueFactory_New f (current_context isol') (JSArray (map Some args))\<rparr>]\<rparr>))"
  using Call_minted[OF assms(2), of isol' args w2] assms(3)
  by (simp add: Get_eq DoCallback_def Array_New_def)

theorem call_while_registered_witness:
  "JSCallbackMaker_new 7 1 2 empty_world = (example_maker, example_world)
   \<and> MakeJSCallback running example_maker 9 example_world
     = Inr (\<lparr>made_by = 1, made_in = 7, converted_from = example_function\<rparr>, example_world)
   \<and> fst (Get 0 (singleton example_world)) = Some \<lparr>bv_factory = 1, callback = 2\<rparr>
   \<and> Call running example_function [JSNumber 1, JSString ''x'', JSUndefined] example_world
       = Some (Inr (CallbackDone,
            example_world\<lparr>host_calls :=
              [\<lparr>called = 2, with_callback_id = 9,
                with_args = \<lparr>made_by = 1, made_in = 7,
                             converted_from = JSArray [Some (JSNumber 1), Some (JSString ''x''), Some JSUndefined]\<rparr>\<rparr>]\<rparr>))"
proof -
  note h1 = example_new
  have h3: "fst (Get (Holder_Get (callback_caller_holder example_maker)) (singleton example_world))
              = Some \<lparr>bv_factory = 1, callback = 2\<rparr>"
    by (simp add: example_maker_eq example_world_eq Holder_Get_def Get_eq)
  show ?thesis
    using h1 example_mint h3
      call_while_registered [OF h1 example_mint h3, of running "[JSNumber 1, JSString ''x'', JSUndefined]"]
    by (simp add: example_maker_eq Holder_Get_def example_world_eq running_def BinaryValueFactory_New_def)
qed

subsection \<open>C3: a lookup is present exactly for a registered identifier\<close>

text \<open>
  C3. After every sequence of \<^verbatim>\<open>Register\<close>, \<^verbatim>\<open>Unregister\<close> and lookup calls on the
  registry singleton, and for every identifier \<open>i\<close>, the lookup \<^verbatim>\<open>Get(i)\<close> is present
  exactly when some \<^verbatim>\<open>Register\<close> call returned \<open>i\<close> and no later \<^verbatim>\<open>Unregister(i)\<close>
  occurred; and when present it is the caller stored by the \<^verbatim>\<open>Register\<close> call that
  returned \<open>i\<close>, after which nothing registered or unregistered \<open>i\<close>.
\<close>

theorem lookup_present_iff_registered:
  assumes "run_ops xs (initial_registry first_id) = (evs, r)"
  shows "(fst (Get i r) \<noteq> None \<longleftrightarrow>
           (\<exists>before c after. evs = before @ Registered i c # after \<and> Unregistered i \<notin> set after))
       \<and> (\<forall>c. fst (Get i r) = Some c \<longrightarrow>
           (\<exists>before after. evs = before @ Registered i c # after \<and>
              (\<forall>e \<in> set after. \<not> about i e)))"
proof -
  have g: "fst (Get i r) =
     (case last_about i evs of Some (Registered j c) \<Rightarrow> Some c | _ \<Rightarrow> None)"
    using run_ops_callers[of xs "initial_registry first_id" i] assms
    by (simp add: Get_eq initial_registry_def split: option.splits registry_event.splits)
  have a: "\<exists>before after. evs = before @ Registered i c # after \<and> (\<forall>e \<in> set after. \<not> about i e)"
    if "fst (Get i r) = Some c" for c
  proof -
    from that g obtain j where l: "last_about i evs = Some (Registered j c)"
      by (auto split: option.splits registry_event.splits)
    then have "about i (Registered j c)" using last_about_in by blast
    then have "j = i" by simp
    then show ?thesis using l last_about_Some[of i evs "Registered j c"] by blast
  qed
  have b: "fst (Get i r) \<noteq> None"
    if "evs = before @ Registered i c # after" "Unregistered i \<notin> set after" for before c after
    using last_about_registered[OF that(2), of before c] that(1) g by auto
  have c: "\<exists>before c after. evs = before @ Registered i c # after \<and> Unregistered i \<notin> set after"
    if "fst (Get i r) \<noteq> None"
  proof -
    from that obtain c where "fst (Get i r) = Some c" by blast
    from a[OF this] obtain before after where
      "evs = before @ Registered i c # after" "\<forall>e \<in> set after. \<not> about i e" by blast
    moreover have "Unregistered i \<notin> set after" using calculation(2) by force
    ultimately show ?thesis by blast
  qed
  show ?thesis using a b c by blast
qed

theorem lookup_present_iff_registered_witness:
  "run_ops [DoRegister 1 2, DoRegister 3 4, DoUnregister 0, DoGet 1] (initial_registry 0)
     = ([Registered 0 \<lparr>bv_factory = 1, callback = 2\<rparr>, Registered 1 \<lparr>bv_factory = 3, callback = 4\<rparr>,
         Unregistered 0, Looked_up 1 (Some \<lparr>bv_factory = 3, callback = 4\<rparr>)],
        \<lparr>next_id = 2, callback_callers = [1 \<mapsto> \<lparr>bv_factory = 3, callback = 4\<rparr>]\<rparr>)
   \<and> fst (Get 1 \<lparr>next_id = 2, callback_callers = [1 \<mapsto> \<lparr>bv_factory = 3, callback = 4\<rparr>]\<rparr>)
       = Some \<lparr>bv_factory = 3, callback = 4\<rparr>
   \<and> (\<exists>before after.
         [Registered 0 \<lparr>bv_factory = 1, callback = 2\<rparr>, Registered 1 \<lparr>bv_factory = 3, callback = 4\<rparr>,
          Unregistered 0, Looked_up 1 (Some \<lparr>bv_factory = 3, callback = 4\<rparr>)]
           = before @ Registered 1 \<lparr>bv_factory = 3, callback = 4\<rparr> # after
         \<and> (\<forall>e \<in> set after. \<not> about 1 e))
   \<and> fst (Get 0 \<lparr>next_id = 2, callback_callers = [1 \<mapsto> \<lparr>bv_factory = 3, callback = 4\<rparr>]\<rparr>) = None"
proof -
  have h: "run_ops [DoRegister 1 2, DoRegister 3 4, DoUnregister 0, DoGet 1] (initial_registry 0)
     = ([Registered 0 \<lparr>bv_factory = 1, callback = 2\<rparr>, Registered 1 \<lparr>bv_factory = 3, callback = 4\<rparr>,
         Unregistered 0, Looked_up 1 (Some \<lparr>bv_factory = 3, callback = 4\<rparr>)],
        \<lparr>next_id = 2, callback_callers = [1 \<mapsto> \<lparr>bv_factory = 3, callback = 4\<rparr>]\<rparr>)"
    by (simp add: run_ops_Cons apply_op_eq Register_eq Unregister_def initial_registry_def fun_eq_iff)
  have g: "fst (Get 1 \<lparr>next_id = 2, callback_callers = [1 \<mapsto> \<lparr>bv_factory = 3, callback = 4\<rparr>]\<rparr>)
       = Some \<lparr>bv_factory = 3, callback = 4\<rparr>" by (simp add: Get_eq)
  have n: "fst (Get 0 \<lparr>next_id = 2, callback_callers = [1 \<mapsto> \<lparr>bv_factory = 3, callback = 4\<rparr>]\<rparr>) = None"
    by (simp add: Get_eq)
  show ?thesis
    using h g n lookup_present_iff_registered [OF h, of 1] by blast
qed

subsection \<open>C4: the identifiers that Register returns\<close>

text \<open>
  C4 as stated fails: the counter is an unsigned 64-bit value and \<^verbatim>\<open>next_id_++\<close>
  wraps. From the empty singleton with the counter at 0, register and unregister a caller
  \<open>2 ^ 64\<close> times and register once more: the last call returns 0, which the first call
  returned. The identifiers returned are then neither strictly increasing nor free of
  repetition.
\<close>

theorem identifier_reused_after_wraparound:
  "\<not> sorted_wrt (<) (registered_ids (fst (run_ops (churn 0 (2 ^ 64) @ [DoRegister 0 0]) (initial_registry 0))))
   \<and> \<not> distinct (registered_ids (fst (run_ops (churn 0 (2 ^ 64) @ [DoRegister 0 0]) (initial_registry 0))))"
proof -
  define ids where
    "ids = registered_ids (fst (run_ops (churn 0 (2 ^ 64) @ [DoRegister 0 0]) (initial_registry 0)))"
  have ids: "ids = map (\<lambda>k. (of_nat k :: u64)) [0..<2 ^ 64 + 1]"
    unfolding ids_def
    by (simp add: run_ops_registered_ids count_registers_append count_registers_churn initial_registry_def del: upt_Suc)
  have len: "length ids = 2 ^ 64 + 1" unfolding ids by simp
  have a: "ids ! 0 = 0" unfolding ids by (simp del: upt_Suc)
  have "[0..<2 ^ 64 + 1] ! (2 ^ 64) = (2 ^ 64 :: nat)" by (subst nth_upt) simp_all
  then have b: "ids ! (2 ^ 64) = 0" unfolding ids by (simp del: upt_Suc)
  have "\<not> sorted_wrt (<) ids"
  proof
    assume "sorted_wrt (<) ids"
    then have "ids ! 0 < ids ! (2 ^ 64)"
      by (rule sorted_wrt_nth_less) (simp_all add: len)
    then show False using a b by simp
  qed
  moreover have "\<not> distinct ids"
  proof
    assume "distinct ids"
    then have "ids ! 0 \<noteq> ids ! (2 ^ 64)"
      by (simp add: nth_eq_iff_index_eq len)
    then show False using a b by simp
  qed
  ultimately show ?thesis unfolding ids_def by simp
qed

text \<open>
  C4, as amended. In every run of registry operations that starts with the counter at
  \<open>n\<close> and calls \<^verbatim>\<open>Register\<close> \<open>N\<close> times, with \<open>n + N \<le> 2 ^ 64\<close> (the counter
  does not wrap), the identifiers returned are \<open>n, n + 1, \<dots>, n + N - 1\<close> in this order:
  strictly increasing, and none returned twice.
\<close>

theorem identifiers_increase_until_wraparound:
  assumes "unat (next_id r) + count_registers xs \<le> 2 ^ 64"
  shows "registered_ids (fst (run_ops xs r)) = map (\<lambda>k. next_id r + of_nat k) [0..<count_registers xs]
       \<and> sorted_wrt (<) (registered_ids (fst (run_ops xs r)))
       \<and> distinct (registered_ids (fst (run_ops xs r)))"
proof -
  have s: "sorted_wrt (<) (registered_ids (fst (run_ops xs r)))"
    unfolding run_ops_registered_ids using assms by (rule ids_increasing)
  then have "distinct (registered_ids (fst (run_ops xs r)))"
    by (simp add: strict_sorted_iff)
  then show ?thesis using s by (simp add: run_ops_registered_ids)
qed

theorem identifiers_increase_until_wraparound_witness:
  "unat (next_id (initial_registry 5)) + count_registers [DoRegister 1 2, DoUnregister 5, DoRegister 3 4, DoGet 6, DoRegister 1 2] \<le> 2 ^ 64
   \<and> registered_ids (fst (run_ops [DoRegister 1 2, DoUnregister 5, DoRegister 3 4, DoGet 6, DoRegister 1 2] (initial_registry 5)))
       = [5, 6, 7]
   \<and> sorted_wrt (<) (registered_ids (fst (run_ops [DoRegister 1 2, DoUnregister 5, DoRegister 3 4, DoGet 6, DoRegister 1 2] (initial_registry 5))))
   \<and> distinct (registered_ids (fst (run_ops [DoRegister 1 2, DoUnregister 5, DoRegister 3 4, DoGet 6, DoRegister 1 2] (initial_registry 5))))"
proof -
  have h: "unat (next_id (initial_registry 5)) + count_registers [DoRegister 1 2, DoUnregister 5, DoRegister 3 4, DoGet 6, DoRegister 1 2] \<le> 2 ^ 64"
    by (simp add: initial_registry_def)
  have n: "next_id (initial_registry 5) = 5" by (simp add: initial_registry_def)
  have u: "[0..<3] = [0, 1, 2]" by (simp add: upt_rec)
  show ?thesis
    using h identifiers_increase_until_wraparound [OF h] by (simp add: n u)
qed

subsection \<open>C5: malformed invocation data\<close>

text \<open>
  C5 as stated fails where it says that no exception is raised. When reading element 0 or
  element 1 of the data raises, the \<^verbatim>\<open>MaybeLocal\<close> is empty and the entry point
  returns, but it has no \<^verbatim>\<open>TryCatch\<close>: the exception of the read is still pending and
  the script call throws it. Here element 1 of the data raises when read.
\<close>

theorem absent_element_leaves_exception_pending:
  "malformed_data (JSArray [Some (JSBigInt 0), None]) \<and>
   \<not> pending_exception example_world \<and>
   OnCalledStatic \<lparr>GetIsolate = running, Data = JSArray [Some (JSBigInt 0), None], arguments = [JSNumber 1]\<rparr>
      example_world
     = Inr (CallbackIdEmpty, example_world\<lparr>pending_exception := True\<rparr>) \<and>
   pending_exception (example_world\<lparr>pending_exception := True\<rparr>)"
  by (simp add: malformed_data_def not_an_identifier_def Array_slot_def OnCalledStatic_def Array_Get_eq
      BigInt_Uint64Value_def example_world_eq)

text \<open>
  C5, as amended. For every call of the entry point whose attached data is malformed (it is
  not an array of exactly two elements, or element 0 or element 1 is absent, is not a
  big-integer, or does not convert losslessly to an unsigned 64-bit integer), the entry point
  returns at one of its checks of the data: no host callback is called, the registry is not
  consulted, the process does not abort and no value is produced. When neither read of the
  data raised, the state is unchanged, so no exception is raised; when reading element 0 or
  element 1 raised, the only change is that this exception is pending at the return.
\<close>

theorem malformed_data_makes_no_call:
  assumes "malformed_data (Data info)"
  shows "\<exists>e. OnCalledStatic info w =
               Inr (e, if read_raises (Data info) then w\<lparr>pending_exception := True\<rparr> else w)
             \<and> e \<noteq> CallbackDone \<and> e \<noteq> CallerNotFound"
proof (cases "\<exists>slots. Data info = JSArray slots")
  case False
  then have "OnCalledStatic info w = Inr (DataNotArray, w)" "\<not> read_raises (Data info)"
    by (cases "Data info"; simp add: OnCalledStatic_def read_raises_def)+
  then show ?thesis by simp
next
  case True
  then obtain slots where d: "Data info = JSArray slots" by blast
  show ?thesis
  proof (cases "length slots = 2")
    case False
    then have "OnCalledStatic info w = Inr (DataLengthNot2, w)" "\<not> read_raises (Data info)"
      using d by (simp_all add: OnCalledStatic_def read_raises_def)
    then show ?thesis by simp
  next
    case True
    with assms d have bad: "not_an_identifier (Array_slot slots 0) \<or> not_an_identifier (Array_slot slots 1)"
      by (simp add: malformed_data_def)
    show ?thesis
    proof (cases "not_an_identifier (Array_slot slots 0)")
      case True
      then show ?thesis
        using d \<open>length slots = 2\<close>
        by (auto simp add: OnCalledStatic_def Let_def not_an_identifier_def read_raises_def Array_Get_eq
            lossless_iff[symmetric] split: option.splits js_value.splits prod.splits)
    next
      case False
      then have "not_an_identifier (Array_slot slots 1)" using bad by simp
      then show ?thesis
        using d \<open>length slots = 2\<close>
        by (auto simp add: OnCalledStatic_def Let_def not_an_identifier_def read_raises_def Array_Get_eq
            lossless_iff[symmetric] split: option.splits js_value.splits prod.splits)
    qed
  qed
qed

theorem malformed_data_makes_no_call_witness:
  "malformed_data (JSArray [Some (JSBigInt 0), Some (JSBigInt (2 ^ 64))]) \<and>
   \<not> read_raises (JSArray [Some (JSBigInt 0), Some (JSBigInt (2 ^ 64))]) \<and>
   callback_callers (singleton example_world) 0 = Some \<lparr>bv_factory = 1, callback = 2\<rparr> \<and>
   OnCalledStatic
     \<lparr>GetIsolate = running, Data = JSArray [Some (JSBigInt 0), Some (JSBigInt (2 ^ 64))],
      arguments = [JSNumber 1]\<rparr> example_world
   = Inr (CallbackIdLossy, example_world)"
proof -
  have h: "malformed_data (Data \<lparr>GetIsolate = running,
      Data = JSArray [Some (JSBigInt 0), Some (JSBigInt (2 ^ 64))], arguments = [JSNumber 1]\<rparr>)"
    by (simp add: malformed_data_def not_an_identifier_def Array_slot_def uint_word_of_int)
  have n: "\<not> read_raises (JSArray [Some (JSBigInt 0), Some (JSBigInt (2 ^ 64))])"
    by (simp add: read_raises_def Array_slot_def)
  have r: "callback_callers (singleton example_world) 0 = Some \<lparr>bv_factory = 1, callback = 2\<rparr>"
    by (simp add: example_world_eq)
  have e: "fst (projr (OnCalledStatic
     \<lparr>GetIsolate = running, Data = JSArray [Some (JSBigInt 0), Some (JSBigInt (2 ^ 64))],
      arguments = [JSNumber 1]\<rparr> example_world)) = CallbackIdLossy"
    by (simp add: OnCalledStatic_def Array_Get_eq Array_slot_def BigInt_Uint64Value_def)
  show ?thesis
    using h n r e malformed_data_makes_no_call [OF h, of example_world]
    by auto
qed

subsection \<open>C6: unregistering an absent identifier\<close>

text \<open>
  C6. For every registry state and every identifier \<open>i\<close>, \<^verbatim>\<open>Unregister(i)\<close> when no
  caller is registered under \<open>i\<close> (never registered, or already unregistered) leaves the
  registry state unchanged; unregistering the same identifier twice leaves the state that the
  first call left. The operation has no failing branch.
\<close>

theorem Unregister_absent_is_noop:
  "(callback_callers r i = None \<longrightarrow> Unregister i r = r) \<and>
   Unregister i (Unregister i r) = Unregister i r"
proof -
  have "Unregister i r = r" if "callback_callers r i = None"
    using that by (cases r) (simp add: Unregister_def fun_upd_idem)
  moreover have "Unregister i (Unregister i r) = Unregister i r"
    by (simp add: Unregister_def)
  ultimately show ?thesis by simp
qed

theorem Unregister_absent_is_noop_witness:
  "callback_callers (snd (Register 1 2 (initial_registry 0))) 5 = None \<and>
   Unregister 5 (snd (Register 1 2 (initial_registry 0))) = snd (Register 1 2 (initial_registry 0)) \<and>
   Unregister 0 (Unregister 0 (snd (Register 1 2 (initial_registry 0))))
     = Unregister 0 (snd (Register 1 2 (initial_registry 0)))"
proof -
  have h: "callback_callers (snd (Register 1 2 (initial_registry 0))) 5 = None"
    by (simp add: Register_eq initial_registry_def)
  show ?thesis
    using h Unregister_absent_is_noop [of "snd (Register 1 2 (initial_registry 0))" 5]
      Unregister_absent_is_noop [of "snd (Register 1 2 (initial_registry 0))" 0]
    by simp
qed

subsection \<open>C7: no operation is fatal\<close>




subsection \<open>C8: the identifiers survive the encoding\<close>

text \<open>
  C8. Every unsigned 64-bit identifier, encoded by \<^verbatim>\<open>BigInt::NewFromUnsigned\<close> and decoded
  by \<^verbatim>\<open>Uint64Value\<close>, comes back unchanged with the lossless flag true. Hence the data of
  a minted function is not malformed, and a call of a minted function, in any state and with
  any arguments, returns at the registry miss or after the callback, never at a check of the
  data: what it does is decided by the lookup of the holder's identifier, and the callback
  gets the callback identifier the function was minted with.
\<close>

theorem identifier_roundtrip:
  "(\<exists>n. BigInt_NewFromUnsigned c = JSBigInt n \<and> BigInt_Uint64Value n = (c, True)) \<and>
   (MakeJSCallback isol m k w = Inr (bv, w') \<longrightarrow>
      (\<exists>d. converted_from bv = JSFunction d \<and> \<not> malformed_data d) \<and>
      (\<exists>e w3. Call isol' (converted_from bv) args w2 = Some (Inr (e, w3)) \<and>
               (e = CallerNotFound \<or> e = CallbackDone)) \<and>
      Call isol' (converted_from bv) args w2 =
        Some (case fst (Get (Holder_Get (callback_caller_holder m)) (singleton w2)) of
                None \<Rightarrow> Inr (CallerNotFound, w2)
              | Some caller \<Rightarrow>
                  Inr (CallbackDone, DoCallback caller (current_context isol') k (Array_New args) w2)))"
proof -
  have a: "\<exists>n. BigInt_NewFromUnsigned c = JSBigInt n \<and> BigInt_Uint64Value n = (c, True)"
    by (simp add: BigInt_NewFromUnsigned_def Uint64Value_uint)
  have b: "\<exists>d. converted_from bv = JSFunction d \<and> \<not> malformed_data d"
    if "MakeJSCallback isol m k w = Inr (bv, w')"
    using MakeJSCallback_Inr[OF that] minted_data_well_formed
    by (simp add: BinaryValueFactory_New_def)
  have c: "Call isol' (converted_from bv) args w2 =
        Some (case fst (Get (Holder_Get (callback_caller_holder m)) (singleton w2)) of
                None \<Rightarrow> Inr (CallerNotFound, w2)
              | Some caller \<Rightarrow>
                  Inr (CallbackDone, DoCallback caller (current_context isol') k (Array_New args) w2))"
    if "MakeJSCallback isol m k w = Inr (bv, w')"
    using Call_minted[OF that] by (simp add: Get_eq)
  have d: "\<exists>e w3. Call isol' (converted_from bv) args w2 = Some (Inr (e, w3)) \<and>
               (e = CallerNotFound \<or> e = CallbackDone)"
    if "MakeJSCallback isol m k w = Inr (bv, w')"
    unfolding c[OF that] by (simp split: option.split)
  show ?thesis using a b c d by blast
qed

theorem identifier_roundtrip_witness:
  "BigInt_Uint64Value 18446744073709551615 = (- 1, True)
   \<and> MakeJSCallback running example_maker 9 example_world
       = Inr (\<lparr>made_by = 1, made_in = 7, converted_from = example_function\<rparr>, example_world)
   \<and> \<not> malformed_data (JSArray [Some (JSBigInt 0), Some (JSBigInt 9)])
   \<and> Call running example_function [] empty_world = Some (Inr (CallerNotFound, empty_world))"
proof -
  have a: "BigInt_NewFromUnsigned (- 1) = JSBigInt 18446744073709551615"
    by (simp add: BigInt_NewFromUnsigned_def unsigned_minus_1_eq_mask mask_eq_exp_minus_1)
  have g: "fst (Get (Holder_Get (callback_caller_holder example_maker)) (singleton empty_world)) = None"
    by (simp add: Get_eq empty_world_def initial_registry_def)
  show ?thesis
    using a g example_mint
      identifier_roundtrip [of "- 1" running example_maker 9 example_world
        "\<lparr>made_by = 1, made_in = 7, converted_from = example_function\<rparr>" example_world running "[]" empty_world]
    by (auto simp add: example_function_def)
qed

subsection \<open>C9: what each registry operation changes\<close>

text \<open>
  C9 as stated fails for \<^verbatim>\<open>Register\<close>: it stores with
  \<^verbatim>\<open>callback_callers_[id] = caller\<close>, which replaces an entry already there. In
  \<open>wrapped_registry\<close> the counter has wrapped to 0 while the caller registered first is
  still registered under 0; the next \<^verbatim>\<open>Register\<close> returns 0 and replaces that caller: an
  existing entry is changed and no entry is added.
\<close>

theorem Register_overwrites_after_wraparound:
  "callback_callers wrapped_registry 0 = Some \<lparr>bv_factory = 1, callback = 1\<rparr> \<and>
   fst (Register 2 2 wrapped_registry) = 0 \<and>
   callback_callers (snd (Register 2 2 wrapped_registry)) 0 = Some \<lparr>bv_factory = 2, callback = 2\<rparr> \<and>
   dom (callback_callers (snd (Register 2 2 wrapped_registry))) = dom (callback_callers wrapped_registry)"
  using wrapped_registry_callers wrapped_registry_next_id
  by (auto simp add: Register_eq)

text \<open>
  C9, as amended. For every registry state: \<^verbatim>\<open>Unregister(i)\<close> removes the entry of \<open>i\<close>
  if there is one and leaves every other entry and the counter unchanged. \<^verbatim>\<open>Register\<close>
  returns the value of the counter, sets the entry of exactly that identifier to the new
  caller, increments only the counter and leaves every other entry unchanged; when no caller
  is registered under the value of the counter, that entry is a new one, the map grows by
  exactly it, and all existing entries are unchanged. \<^verbatim>\<open>Get(i)\<close> leaves the whole state
  unchanged.
\<close>

theorem registry_frame:
  "(next_id (Unregister i r) = next_id r \<and>
    callback_callers (Unregister i r) i = None \<and>
    (\<forall>j. j \<noteq> i \<longrightarrow> callback_callers (Unregister i r) j = callback_callers r j))
   \<and>
   (fst (Register f cb r) = next_id r \<and>
    next_id (snd (Register f cb r)) = next_id r + 1 \<and>
    callback_callers (snd (Register f cb r)) (next_id r) = Some \<lparr>bv_factory = f, callback = cb\<rparr> \<and>
    (\<forall>j. j \<noteq> next_id r \<longrightarrow> callback_callers (snd (Register f cb r)) j = callback_callers r j) \<and>
    (callback_callers r (next_id r) = None \<longrightarrow>
       next_id r \<notin> dom (callback_callers r) \<and>
       dom (callback_callers (snd (Register f cb r))) = insert (next_id r) (dom (callback_callers r)) \<and>
       (\<forall>j \<in> dom (callback_callers r). callback_callers (snd (Register f cb r)) j = callback_callers r j)))
   \<and>
   snd (Get i r) = r"
proof -
  have unregister: "next_id (Unregister i r) = next_id r \<and>
    callback_callers (Unregister i r) i = None \<and>
    (\<forall>j. j \<noteq> i \<longrightarrow> callback_callers (Unregister i r) j = callback_callers r j)"
    by (simp add: Unregister_simps)
  have register: "fst (Register f cb r) = next_id r \<and>
    next_id (snd (Register f cb r)) = next_id r + 1 \<and>
    callback_callers (snd (Register f cb r)) (next_id r) = Some \<lparr>bv_factory = f, callback = cb\<rparr> \<and>
    (\<forall>j. j \<noteq> next_id r \<longrightarrow> callback_callers (snd (Register f cb r)) j = callback_callers r j)"
    by (simp add: Register_eq)
  have fresh: "next_id r \<notin> dom (callback_callers r) \<and>
       dom (callback_callers (snd (Register f cb r))) = insert (next_id r) (dom (callback_callers r)) \<and>
       (\<forall>j \<in> dom (callback_callers r). callback_callers (snd (Register f cb r)) j = callback_callers r j)"
    if "callback_callers r (next_id r) = None"
    using that by (auto simp add: Register_eq)
  have lookup: "snd (Get i r) = r" by (simp add: Get_eq)
  show ?thesis using unregister register fresh lookup by blast
qed

theorem registry_frame_witness:
  "callback_callers (initial_registry 7) (next_id (initial_registry 7)) = None \<and>
   fst (Register 1 2 (initial_registry 7)) = 7 \<and>
   next_id (snd (Register 1 2 (initial_registry 7))) = 8 \<and>
   callback_callers (snd (Register 1 2 (initial_registry 7))) 7 = Some \<lparr>bv_factory = 1, callback = 2\<rparr> \<and>
   callback_callers (snd (Register 1 2 (initial_registry 7))) 3 = callback_callers (initial_registry 7) 3 \<and>
   dom (callback_callers (snd (Register 1 2 (initial_registry 7)))) = {7} \<and>
   next_id (Unregister 3 (initial_registry 7)) = 7 \<and>
   snd (Get 3 (initial_registry 7)) = initial_registry 7"
proof -
  have h: "callback_callers (initial_registry 7) (next_id (initial_registry 7)) = None"
    by (simp add: initial_registry_def)
  have n: "next_id (initial_registry 7) = 7" "dom (callback_callers (initial_registry 7)) = {}"
    by (simp_all add: initial_registry_def)
  have d: "(3::u64) \<noteq> 7" by simp
  show ?thesis
    using h n d registry_frame [of 3 "initial_registry 7" 1 2] by simp
qed

subsection \<open>C10: minting does not touch the registry\<close>

text \<open>
  C10. Construct a factory, mint any number of functions from it, then destroy it. Minting
  leaves the state, so the registry, exactly as the construction left it. The construction
  is exactly one \<^verbatim>\<open>Register\<close> on the singleton, whose identifier the holder keeps; the
  destruction is exactly one \<^verbatim>\<open>Unregister\<close> of that identifier; from construction to
  destruction the registry has gone through exactly these two operations, and no host
  callback was called.
\<close>

theorem minting_leaves_registry:
  assumes "JSCallbackMaker_new ctx f cb w0 = (m, w1)"
      and "mint_all m ks w1 = Inr (bvs, w2)"
  shows "w2 = w1 \<and> length bvs = length ks \<and>
         (Holder_Get (callback_caller_holder m), singleton w1) = Register f cb (singleton w0) \<and>
         host_calls w1 = host_calls w0 \<and>
         JSCallbackMaker_delete m w2 =
           w1\<lparr>singleton := Unregister (Holder_Get (callback_caller_holder m)) (singleton w1)\<rparr> \<and>
         run_ops [DoRegister f cb, DoUnregister (Holder_Get (callback_caller_holder m))] (singleton w0)
           = ([Registered (Holder_Get (callback_caller_holder m)) \<lparr>bv_factory = f, callback = cb\<rparr>,
               Unregistered (Holder_Get (callback_caller_holder m))],
              singleton (JSCallbackMaker_delete m w2))"
proof -
  have a: "w2 = w1" "length bvs = length ks" using mint_all_frame[OF assms(2)] by simp_all
  have b: "m = \<lparr>context_holder = ctx, maker_bv_factory = f,
       callback_caller_holder = \<lparr>holder_callback_caller_id = next_id (singleton w0)\<rparr>\<rparr>"
     "w1 = w0\<lparr>singleton := snd (Register f cb (singleton w0))\<rparr>"
    using assms(1) by (simp_all add: JSCallbackMaker_new_eq)
  show ?thesis
    unfolding a(1) using a(2)
    by (simp add: b JSCallbackMaker_delete_eq Holder_Get_def Register_eq run_ops_Cons apply_op_eq)
qed

theorem minting_leaves_registry_witness:
  "JSCallbackMaker_new 7 1 2 empty_world = (example_maker, example_world)
   \<and> mint_all example_maker [(running, 9), (running, 10)] example_world
       = Inr ([\<lparr>made_by = 1, made_in = 7, converted_from = example_function\<rparr>,
               \<lparr>made_by = 1, made_in = 7,
                converted_from = JSFunction (JSArray [Some (JSBigInt 0), Some (JSBigInt 10)])\<rparr>],
              example_world)
   \<and> singleton example_world = snd (Register 1 2 (singleton empty_world))
   \<and> singleton (JSCallbackMaker_delete example_maker example_world)
       = Unregister 0 (singleton example_world)"
proof -
  note h1 = example_new
  have m2: "MakeJSCallback running example_maker 10 example_world
     = Inr (\<lparr>made_by = 1, made_in = 7,
             converted_from = JSFunction (JSArray [Some (JSBigInt 0), Some (JSBigInt 10)])\<rparr>, example_world)"
    by (simp add: MakeJSCallback_def Let_def ToLocalChecked_def Function_New_def running_def
      example_maker_eq Holder_Get_def BigInt_NewFromUnsigned_def Array_New_def
      BinaryValueFactory_New_def)
  have h2: "mint_all example_maker [(running, 9), (running, 10)] example_world
       = Inr ([\<lparr>made_by = 1, made_in = 7, converted_from = example_function\<rparr>,
               \<lparr>made_by = 1, made_in = 7,
                converted_from = JSFunction (JSArray [Some (JSBigInt 0), Some (JSBigInt 10)])\<rparr>],
              example_world)"
    by (simp add: example_mint m2)
  have i: "Holder_Get (callback_caller_holder example_maker) = 0"
    by (simp add: example_maker_eq Holder_Get_def)
  show ?thesis
    using h1 h2 minting_leaves_registry [OF h1 h2]
    by (simp add: i) (metis snd_conv)
qed

end
